theory Spec2Isabelle
  imports Complex_Main "HOL-Library.Sublist"
begin

section \<open>Python strings\<close>

text \<open>
  A Python \<open>str\<close> is a sequence of Unicode code points and \<open>len\<close> counts code points,
  so a string is a list of code points here. Literals are written \<open>ustr ''...''\<close>.
\<close>

type_synonym uchar = nat
type_synonym ustring = "uchar list"

definition uc :: "char \<Rightarrow> uchar" where
  "uc c = of_char c"

definition ustr :: "string \<Rightarrow> ustring" where
  "ustr s = map uc s"

text \<open>
  \<open>str.isspace\<close> on one character, which is also what \<open>\s\<close> matches in a \<open>str\<close>
  pattern: the ASCII white space, the separators U+001C..U+001F, U+0085, U+00A0 and the
  Unicode space separators.
\<close>

definition isspace :: "uchar \<Rightarrow> bool" where
  "isspace c \<longleftrightarrow>
     (9 \<le> c \<and> c \<le> 13) \<or> (28 \<le> c \<and> c \<le> 32) \<or> c = 133 \<or> c = 160 \<or> c = 5760 \<or>
     (8192 \<le> c \<and> c \<le> 8202) \<or> c = 8232 \<or> c = 8233 \<or> c = 8239 \<or> c = 8287 \<or> c = 12288"

text \<open>\<open>char in string.printable\<close>: digits, ASCII letters, punctuation and \<open>' \t\n\r\x0b\x0c'\<close>.\<close>

definition printable :: "uchar \<Rightarrow> bool" where
  "printable c \<longleftrightarrow> (32 \<le> c \<and> c \<le> 126) \<or> (9 \<le> c \<and> c \<le> 13)"

definition is_ascii :: "ustring \<Rightarrow> bool" where
  "is_ascii s \<longleftrightarrow> list_all (\<lambda>c. c < 128) s"

text \<open>\<open>s.strip()\<close>\<close>

definition strip :: "ustring \<Rightarrow> ustring" where
  "strip s = rev (dropWhile isspace (rev (dropWhile isspace s)))"

text \<open>\<open>sep.join(parts)\<close>\<close>

fun join :: "ustring \<Rightarrow> ustring list \<Rightarrow> ustring" where
  "join sep [] = []"
| "join sep [x] = x"
| "join sep (x # y # ys) = x @ sep @ join sep (y # ys)"

text \<open>\<open>p in s\<close> for strings\<close>

fun is_substr :: "ustring \<Rightarrow> ustring \<Rightarrow> bool" where
  "is_substr p [] = (p = [])"
| "is_substr p (c # cs) = (prefix p (c # cs) \<or> is_substr p cs)"

text \<open>\<open>s.replace(old, new)\<close> for a one-character \<open>old\<close>\<close>

definition replace_char :: "uchar \<Rightarrow> ustring \<Rightarrow> ustring \<Rightarrow> ustring" where
  "replace_char old new s = concat (map (\<lambda>c. if c = old then new else [c]) s)"

text \<open>\<open>s.split()\<close>: the maximal runs of characters that are not white space.\<close>

function split_ws :: "ustring \<Rightarrow> ustring list" where
  "split_ws s =
     (case dropWhile isspace s of
        [] \<Rightarrow> []
      | c # cs \<Rightarrow> (c # takeWhile (\<lambda>x. \<not> isspace x) cs) # split_ws (dropWhile (\<lambda>x. \<not> isspace x) cs))"
  by pat_completeness auto
termination
proof (relation "measure length")
  fix s :: ustring and c cs
  assume a: "dropWhile isspace s = c # cs"
  have "length (dropWhile (\<lambda>x. \<not> isspace x) cs) \<le> length cs"
    by (rule length_dropWhile_le)
  moreover have "length (dropWhile isspace s) \<le> length s"
    by (rule length_dropWhile_le)
  ultimately show "(dropWhile (\<lambda>x. \<not> isspace x) cs, s) \<in> measure length"
    using a by simp
qed simp

declare split_ws.simps [simp del]

section \<open>Regular-expression substitution\<close>

text \<open>
  \<open>re.sub(pattern, repl, text)\<close> scans the text from the left. At each position the
  pattern is tried; when it matches, the replacement is emitted and the scan goes on
  right after the match, otherwise the character is copied and the scan moves one
  character on. Every pattern of this program matches at least one character, so a
  matcher takes the character at the position and the text after it, and returns the
  replacement and how many characters after the first belong to the match.
\<close>

type_synonym matcher = "uchar \<Rightarrow> ustring \<Rightarrow> (ustring \<times> nat) option"

fun re_sub :: "matcher \<Rightarrow> ustring \<Rightarrow> ustring" where
  "re_sub m [] = []"
| "re_sub m (c # cs) =
     (case m c cs of
        None \<Rightarrow> c # re_sub m cs
      | Some (rep, k) \<Rightarrow> rep @ re_sub m (drop k cs))"

section \<open>Step 2: text sanitation\<close>

text \<open>
  \<open>html.unescape(s)\<close> returns \<open>s\<close> itself when it has no \<open>&\<close>; otherwise it replaces
  character references from the table of the \<open>html\<close> module, which is a parameter.
\<close>

definition html_unescape :: "(ustring \<Rightarrow> ustring) \<Rightarrow> ustring \<Rightarrow> ustring" where
  "html_unescape charref_sub s = (if uc CHR ''&'' \<in> set s then charref_sub s else s)"

text \<open>
  \<open><[^>]+>\<close>: a \<open><\<close>, the longest run of characters other than \<open>>\<close> (at least one), and
  a \<open>>\<close>. A shorter run is followed by a character that is not \<open>>\<close>, so backtracking
  finds nothing more.
\<close>

definition tag_m :: matcher where
  "tag_m c cs =
     (let run = takeWhile (\<lambda>x. x \<noteq> uc CHR ''>'') cs
      in if c = uc CHR ''<'' \<and> run \<noteq> [] \<and> length run < length cs
         then Some ([], Suc (length run)) else None)"

text \<open>
  A pattern letter under \<open>re.IGNORECASE\<close> in a \<open>str\<close> pattern: the letter, its upper
  case, and for \<open>s\<close> and \<open>k\<close> also U+017F (long s) and U+212A (Kelvin sign).
\<close>

definition ci_match :: "uchar \<Rightarrow> uchar \<Rightarrow> bool" where
  "ci_match p x \<longleftrightarrow>
     x = p \<or> (97 \<le> p \<and> p \<le> 122 \<and> x + 32 = p) \<or> (p = 115 \<and> x = 383) \<or> (p = 107 \<and> x = 8490)"

definition starts_ci :: "ustring \<Rightarrow> ustring \<Rightarrow> bool" where
  "starts_ci p s \<longleftrightarrow> length p \<le> length s \<and> list_all2 ci_match p (take (length p) s)"

text \<open>
  A literal prefix \<open>p\<close> of the pattern, then \<open>\S+\<close>: the characters of \<open>p\<close> match without
  regard to case and a character that is not white space follows.
\<close>

definition url_lit :: "ustring \<Rightarrow> ustring \<Rightarrow> bool" where
  "url_lit p s \<longleftrightarrow> starts_ci p s \<and> length p < length s \<and> \<not> isspace (s ! length p)"

text \<open>
  \<open>https?://\S+|www\.\S+\<close> with \<open>re.IGNORECASE\<close> matches at the start of the text when one
  of its three literal prefixes does; the match then runs to the next white space.
\<close>

definition url_at :: "ustring \<Rightarrow> bool" where
  "url_at s \<longleftrightarrow>
     url_lit (ustr ''https://'') s \<or> url_lit (ustr ''http://'') s \<or> url_lit (ustr ''www.'') s"

definition url_m :: matcher where
  "url_m c cs =
     (if url_at (c # cs) then Some ([], length (takeWhile (\<lambda>x. \<not> isspace x) cs)) else None)"

text \<open>\<open>\s+\<close>, replaced by one space\<close>

definition ws_m :: matcher where
  "ws_m c cs = (if isspace c then Some ([32], length (takeWhile isspace cs)) else None)"

text \<open>
  \<open>([!?.]){2,}\<close>, replaced by \<open>\1\<close>: a run of two or more of the three marks; the group
  holds the last character it matched, the last mark of the run.
\<close>

definition is_term :: "uchar \<Rightarrow> bool" where
  "is_term c \<longleftrightarrow> c = uc CHR ''!'' \<or> c = uc CHR ''?'' \<or> c = uc CHR ''.''"

definition rep_m :: matcher where
  "rep_m c cs =
     (let run = takeWhile is_term cs
      in if is_term c \<and> run \<noteq> [] then Some ([last run], length run) else None)"

definition sanitize_text :: "(ustring \<Rightarrow> ustring) \<Rightarrow> ustring \<Rightarrow> ustring" where
  "sanitize_text charref_sub text =
     (if text = [] then []
      else
        let text = html_unescape charref_sub text;
            text = re_sub tag_m text;
            text = re_sub url_m text;
            text = filter (\<lambda>c. printable c \<or> isspace c) text;
            text = re_sub ws_m text;
            text = re_sub rep_m text
        in strip text)"






section \<open>Step 3: Unicode and case normalization\<close>

text \<open>
  \<open>unicodedata.normalize('NFKC', s)\<close> and \<open>s.lower()\<close> leave alone, respectively map
  letter by letter, a text of ASCII characters only. On other texts they follow the
  Unicode character database, which is a parameter (\<open>nfkc\<close>, \<open>lower\<close>).
\<close>

definition ascii_lower :: "uchar \<Rightarrow> uchar" where
  "ascii_lower c = (if 65 \<le> c \<and> c \<le> 90 then c + 32 else c)"

definition ascii_upper :: "uchar \<Rightarrow> uchar" where
  "ascii_upper c = (if 97 \<le> c \<and> c \<le> 122 then c - 32 else c)"

definition py_nfkc :: "(ustring \<Rightarrow> ustring) \<Rightarrow> ustring \<Rightarrow> ustring" where
  "py_nfkc nfkc s = (if is_ascii s then s else nfkc s)"

definition py_lower :: "(ustring \<Rightarrow> ustring) \<Rightarrow> ustring \<Rightarrow> ustring" where
  "py_lower lower s = (if is_ascii s then map ascii_lower s else lower s)"

definition py_upper :: "(ustring \<Rightarrow> ustring) \<Rightarrow> ustring \<Rightarrow> ustring" where
  "py_upper upper s = (if is_ascii s then map ascii_upper s else upper s)"

text \<open>
  \<open>s.replace(old, new)\<close> for a text \<open>old\<close> that is not empty: from the left, every
  occurrence of \<open>old\<close> that does not overlap an earlier one.
\<close>

definition lit_m :: "ustring \<Rightarrow> ustring \<Rightarrow> matcher" where
  "lit_m old new c cs = (if prefix old (c # cs) then Some (new, length old - 1) else None)"

definition replace_str :: "ustring \<Rightarrow> ustring \<Rightarrow> ustring \<Rightarrow> ustring" where
  "replace_str old new s = re_sub (lit_m old new) s"

text \<open>
  The three lines of \<open>replace\<close> calls, as the file has them. On line 146 every quote is an
  ASCII apostrophe or double quote, so that the three apostrophes after \<open>replace(\<close> open a
  string that ends at the next three apostrophes: the line is one call, which replaces
  the text \<open>, "'").replace(\<close> of 15 characters by an apostrophe. Line 147 replaces the
  ASCII double quote by itself, twice. Line 148 replaces U+2014 and U+2013 by \<open>-\<close>.
\<close>

definition quote_literal :: ustring where
  "quote_literal = ustr '', '' @ [34, 39, 34] @ ustr '').replace(''"

definition normalize_unicode_and_case ::
  "(ustring \<Rightarrow> ustring) \<Rightarrow> (ustring \<Rightarrow> ustring) \<Rightarrow> ustring \<Rightarrow> ustring" where
  "normalize_unicode_and_case nfkc lower text =
     (if text = [] then []
      else
        let text = py_nfkc nfkc text;
            text = py_lower lower text;
            text = replace_str quote_literal [39] text;
            text = replace_char 34 [34] (replace_char 34 [34] text);
            text = replace_char 8211 (ustr ''-'') (replace_char 8212 (ustr ''-'') text)
        in text)"

section \<open>Step 4: sentence boundaries\<close>

text \<open>\<open>\.\s{2,}\<close> (and the same for \<open>!\<close> and \<open>?\<close>), replaced by the mark and one space\<close>

definition mark_gap_m :: "uchar \<Rightarrow> matcher" where
  "mark_gap_m mark c cs =
     (let run = takeWhile isspace cs
      in if c = mark \<and> 2 \<le> length run then Some ([mark, 32], length run) else None)"

definition is_punct :: "uchar \<Rightarrow> bool" where
  "is_punct c \<longleftrightarrow> c \<in> set (ustr ''.,!?;:'')"

text \<open>
  \<open>\s+([.,!?;:])+\s+\<close>, replaced by one space: white space, marks, white space, each run
  as long as it goes. A shorter run of white space is followed by white space and a
  shorter run of marks by a mark, so backtracking finds nothing more.
\<close>

definition orphan_m :: matcher where
  "orphan_m c cs =
     (let ws1 = takeWhile isspace cs;
          r1 = dropWhile isspace cs;
          ps = takeWhile is_punct r1;
          r2 = dropWhile is_punct r1;
          ws2 = takeWhile isspace r2
      in if isspace c \<and> ps \<noteq> [] \<and> ws2 \<noteq> []
         then Some ([32], length ws1 + length ps + length ws2) else None)"

text \<open>
  \<open>^\s*([.,!?;:])+\s+\<close>, replaced by the empty text: \<open>^\<close> holds at the start of the text
  only (no \<open>re.MULTILINE\<close>), so there is at most one match.
\<close>

definition strip_leading_marks :: "ustring \<Rightarrow> ustring" where
  "strip_leading_marks text =
     (let r1 = dropWhile isspace text;
          ps = takeWhile is_punct r1;
          r2 = dropWhile is_punct r1;
          ws2 = takeWhile isspace r2
      in if ps \<noteq> [] \<and> ws2 \<noteq> [] then dropWhile isspace r2 else text)"

text \<open>\<open>([.!?])([a-z])\<close>, replaced by \<open>\1 \2\<close>\<close>

definition missed_break_m :: matcher where
  "missed_break_m c cs =
     (case cs of
        [] \<Rightarrow> None
      | d # ds \<Rightarrow> if is_term c \<and> 97 \<le> d \<and> d \<le> 122 then Some ([c, 32, d], 1) else None)"

definition normalize_sentence_boundaries :: "ustring \<Rightarrow> ustring" where
  "normalize_sentence_boundaries text =
     (if text = [] then []
      else
        let text = re_sub (mark_gap_m (uc CHR ''.'')) text;
            text = re_sub (mark_gap_m (uc CHR ''!'')) text;
            text = re_sub (mark_gap_m (uc CHR ''?'')) text;
            text = re_sub orphan_m text;
            text = strip_leading_marks text;
            text = re_sub missed_break_m text
        in strip text)"

section \<open>Step 5: numbers\<close>

text \<open>
  \<open>\b\d+\b\<close>, replaced by \<open><NUM>\<close>. On ASCII text a word character is a letter, a digit
  or \<open>_\<close>. The pattern matches at a digit that no word character precedes, takes the
  whole run of digits, and needs that no word character follows the run. After a match
  the scan goes on behind the run, where a digit precedes. On other texts \<open>\d\<close> and
  \<open>\b\<close> follow the Unicode character database: the parameter \<open>num_sub\<close>.
\<close>

definition is_digit :: "uchar \<Rightarrow> bool" where
  "is_digit c \<longleftrightarrow> 48 \<le> c \<and> c \<le> 57"

definition is_word :: "uchar \<Rightarrow> bool" where
  "is_word c \<longleftrightarrow> is_digit c \<or> (65 \<le> c \<and> c \<le> 90) \<or> (97 \<le> c \<and> c \<le> 122) \<or> c = 95"

function num_scan :: "bool \<Rightarrow> ustring \<Rightarrow> ustring" where
  "num_scan prev_word [] = []"
| "num_scan prev_word (c # cs) =
     (let rest = dropWhile is_digit cs
      in if is_digit c \<and> \<not> prev_word \<and> (rest = [] \<or> \<not> is_word (hd rest))
         then ustr ''<NUM>'' @ num_scan True rest
         else c # num_scan (is_word c) cs)"
  by pat_completeness auto
termination
proof (relation "measure (\<lambda>(p, s). length s)")
  fix prev_word :: bool and c :: uchar and cs x :: ustring
  assume "x = dropWhile is_digit cs"
  then show "((True, x), prev_word, c # cs) \<in> measure (\<lambda>(p, s). length s)"
    using length_dropWhile_le [of is_digit cs] by simp
qed simp_all

definition normalize_numbers :: "(ustring \<Rightarrow> ustring) \<Rightarrow> ustring \<Rightarrow> bool \<Rightarrow> ustring" where
  "normalize_numbers num_sub text enabled =
     (if \<not> enabled \<or> text = [] then text
      else if is_ascii text then num_scan False text
      else num_sub text)"


section \<open>Raw records\<close>

text \<open>
  A raw record comes from decoded JSON: any value may stand where a field is expected.
  A \<open>float\<close> is a rational, an infinity or a NaN; a \<open>dict\<close> is an association list
  read by \<open>map_of\<close>.
\<close>

datatype pyfloat = Finite rat | PosInf | NegInf | NaN

datatype json =
    JNull
  | JBool bool
  | JInt int
  | JFloat pyfloat
  | JStr ustring
  | JList "json list"
  | JDict "(ustring \<times> json) list"

text \<open>Python's exceptions; \<open>KeyboardInterrupt\<close> stands for those outside \<open>Exception\<close>.\<close>

datatype exn = AttributeError | ValueError | OverflowError | OSError | KeyboardInterrupt

fun is_Exception :: "exn \<Rightarrow> bool" where
  "is_Exception KeyboardInterrupt = False"
| "is_Exception _ = True"

text \<open>The truth value of an object\<close>

fun truthy :: "json \<Rightarrow> bool" where
  "truthy JNull = False"
| "truthy (JBool b) = b"
| "truthy (JInt i) = (i \<noteq> 0)"
| "truthy (JFloat f) = (f \<noteq> Finite 0)"
| "truthy (JStr s) = (s \<noteq> [])"
| "truthy (JList l) = (l \<noteq> [])"
| "truthy (JDict d) = (d \<noteq> [])"

text \<open>\<open>a or b\<close> and \<open>d.get(key, default)\<close>\<close>

definition py_or :: "json \<Rightarrow> json \<Rightarrow> json" where
  "py_or a b = (if truthy a then a else b)"

definition dict_get :: "(ustring \<times> json) list \<Rightarrow> string \<Rightarrow> json \<Rightarrow> json" where
  "dict_get d key dflt = (case map_of d (ustr key) of Some v \<Rightarrow> v | None \<Rightarrow> dflt)"

text \<open>A method of \<open>str\<close> called on an object: any other object has no such attribute.\<close>

definition as_str :: "json \<Rightarrow> exn + ustring" where
  "as_str v = (case v of JStr s \<Rightarrow> Inr s | _ \<Rightarrow> Inl AttributeError)"

text \<open>Decimal digits of a number, and \<open>f"{n:04d}"\<close> for \<open>n \<ge> 0\<close>\<close>

fun digits :: "nat \<Rightarrow> ustring" where
  "digits n = (if n < 10 then [48 + n] else digits (n div 10) @ [48 + n mod 10])"

declare digits.simps [simp del]

definition fmt_04d :: "nat \<Rightarrow> ustring" where
  "fmt_04d n = replicate (4 - length (digits n)) 48 @ digits n"

definition int_of_float :: "pyfloat \<Rightarrow> exn + int" where
  "int_of_float f =
     (case f of
        Finite r \<Rightarrow> Inr (if 0 \<le> r then \<lfloor>r\<rfloor> else \<lceil>r\<rceil>)
      | NaN \<Rightarrow> Inl ValueError
      | _ \<Rightarrow> Inl OverflowError)"

section \<open>Dates\<close>

text \<open>
  A \<open>datetime\<close> with a UTC offset and no microseconds is known field by field; any other
  one is an object of the library.
\<close>

typedecl py_datetime

datatype datetime =
    Aware nat nat nat nat nat nat int
  | Opaque py_datetime

text \<open>The calendar of the \<open>datetime\<close> module: ordinals count days from 0001-01-01 = 1.\<close>

definition is_leap :: "nat \<Rightarrow> bool" where
  "is_leap y \<longleftrightarrow> y mod 4 = 0 \<and> (y mod 100 \<noteq> 0 \<or> y mod 400 = 0)"

definition days_in_month :: "nat \<Rightarrow> nat \<Rightarrow> nat" where
  "days_in_month y m =
     (if m = 2 then (if is_leap y then 29 else 28)
      else if m \<in> {4, 6, 9, 11} then 30 else 31)"

definition days_before_year :: "nat \<Rightarrow> nat" where
  "days_before_year y = (y - 1) * 365 + (y - 1) div 4 - (y - 1) div 100 + (y - 1) div 400"

definition days_before_month :: "nat \<Rightarrow> nat \<Rightarrow> nat" where
  "days_before_month y m = sum_list (map (days_in_month y) [1..<m])"

definition ymd2ord :: "nat \<Rightarrow> nat \<Rightarrow> nat \<Rightarrow> nat" where
  "ymd2ord y m d = days_before_year y + days_before_month y m + d"

text \<open>
  \<open>int(dt.timestamp())\<close>. For a \<open>datetime\<close> with an offset it is the seconds from
  1970-01-01T00:00:00+00:00 (ordinal 719163), which a float holds exactly. For any
  other one it depends on the local time zone: the parameter \<open>timestamp\<close>.
\<close>

definition py_timestamp :: "(py_datetime \<Rightarrow> exn + int) \<Rightarrow> datetime \<Rightarrow> exn + int" where
  "py_timestamp timestamp dt =
     (case dt of
        Aware y m d hh mm ss off \<Rightarrow>
          Inr ((int (ymd2ord y m d) - 719163) * 86400 + int (hh * 3600 + mm * 60 + ss) - off)
      | Opaque obj \<Rightarrow> timestamp obj)"

text \<open>The number written by ASCII digits\<close>

definition dec :: "ustring \<Rightarrow> nat" where
  "dec ds = foldl (\<lambda>n c. 10 * n + (c - 48)) 0 ds"

text \<open>
  \<open>YYYY-MM-DDTHH:MM:SS+HH:MM\<close> (or \<open>-HH:MM\<close>) in ASCII digits, every field of the date,
  the time and the offset in its range.
\<close>

definition iso_shape :: "ustring \<Rightarrow> bool" where
  "iso_shape s \<longleftrightarrow>
     length s = 25 \<and>
     list_all is_digit (map (nth s) [0, 1, 2, 3, 5, 6, 8, 9, 11, 12, 14, 15, 17, 18, 20, 21, 23, 24]) \<and>
     s ! 4 = uc CHR ''-'' \<and> s ! 7 = uc CHR ''-'' \<and> s ! 10 = uc CHR ''T'' \<and>
     s ! 13 = uc CHR '':'' \<and> s ! 16 = uc CHR '':'' \<and>
     (s ! 19 = uc CHR ''+'' \<or> s ! 19 = uc CHR ''-'') \<and> s ! 22 = uc CHR '':'' \<and>
     1 \<le> dec (take 4 s) \<and> 1 \<le> dec (take 2 (drop 5 s)) \<and> dec (take 2 (drop 5 s)) \<le> 12 \<and>
     1 \<le> dec (take 2 (drop 8 s)) \<and>
     dec (take 2 (drop 8 s)) \<le> days_in_month (dec (take 4 s)) (dec (take 2 (drop 5 s))) \<and>
     dec (take 2 (drop 11 s)) \<le> 23 \<and> dec (take 2 (drop 14 s)) \<le> 59 \<and>
     dec (take 2 (drop 17 s)) \<le> 59 \<and>
     dec (take 2 (drop 20 s)) \<le> 23 \<and> dec (take 2 (drop 23 s)) \<le> 59"

text \<open>
  \<open>datetime.fromisoformat(s)\<close>. On a text of the shape above it returns the \<open>datetime\<close>
  of these fields with that offset. What it does with any other text (which ones it
  accepts, which exception it raises) depends on the version of the library: the
  parameter \<open>fromisoformat\<close>.
\<close>

definition py_fromisoformat :: "(ustring \<Rightarrow> exn + datetime) \<Rightarrow> ustring \<Rightarrow> exn + datetime" where
  "py_fromisoformat fromisoformat s =
     (if iso_shape s then
        (let off = int (dec (take 2 (drop 20 s)) * 3600 + dec (take 2 (drop 23 s)) * 60)
         in Inr (Aware (dec (take 4 s)) (dec (take 2 (drop 5 s))) (dec (take 2 (drop 8 s)))
              (dec (take 2 (drop 11 s))) (dec (take 2 (drop 14 s))) (dec (take 2 (drop 17 s)))
              (if s ! 19 = uc CHR ''-'' then - off else off)))
      else fromisoformat s)"

section \<open>The library\<close>

text \<open>
  What the program takes from Python's library and the test above cannot write out:
  the tables of \<open>html\<close> and \<open>unicodedata\<close>, \<open>str()\<close> of a float, list or dict,
  \<open>urlparse(url).netloc\<close>, and the date functions where they depend on the version or
  the time zone. A function that can raise returns the exception on the left.
\<close>

record pylib =
  lib_charref_sub :: "ustring \<Rightarrow> ustring"
  lib_nfkc :: "ustring \<Rightarrow> ustring"
  lib_lower :: "ustring \<Rightarrow> ustring"
  lib_upper :: "ustring \<Rightarrow> ustring"
  lib_num_sub :: "ustring \<Rightarrow> ustring"
  lib_repr :: "json \<Rightarrow> ustring"
  lib_netloc :: "ustring \<Rightarrow> exn + ustring"
  lib_fromisoformat :: "ustring \<Rightarrow> exn + datetime"
  lib_strptime :: "ustring \<Rightarrow> string \<Rightarrow> exn + datetime"
  lib_timestamp :: "py_datetime \<Rightarrow> exn + int"

text \<open>
  \<open>str(v)\<close>, for the values that JSON decoding delivers (an \<open>int\<close> among them is within
  the interpreter's limit for the conversion to \<open>str\<close>).
\<close>

definition int_str :: "int \<Rightarrow> ustring" where
  "int_str i = (if i < 0 then uc CHR ''-'' # digits (nat (- i)) else digits (nat i))"

definition py_str :: "pylib \<Rightarrow> json \<Rightarrow> ustring" where
  "py_str lib v =
     (case v of
        JStr s \<Rightarrow> s
      | JInt i \<Rightarrow> int_str i
      | JBool b \<Rightarrow> (if b then ustr ''True'' else ustr ''False'')
      | JNull \<Rightarrow> ustr ''None''
      | _ \<Rightarrow> lib_repr lib v)"


section \<open>Step 1: field validation\<close>

text \<open>
  The article as the steps hand it on: a \<open>dict\<close> with these keys. The key \<open>_flags\<close> is
  set by the linguistic checks only (no key is the empty list here) and the three counts
  by the statistics only (no key is \<open>None\<close> here).
\<close>

record article =
  article_id :: ustring
  title :: "ustring option"
  body_text :: ustring
  source :: ustring
  domain :: ustring
  category :: "ustring list"
  pub_datetime :: "int option"
  url :: ustring
  flags :: "string list"
  character_count :: "nat option"
  token_count :: "nat option"
  sentence_count :: "nat option"

text \<open>
  Lines 62 to 83: the value that the date is read from, and the publication date. Every
  exception is caught there, by the inner \<open>try\<close> for the parse and by the outer one for
  the time stamp.
\<close>

definition pub_date_source :: "(ustring \<times> json) list \<Rightarrow> json" where
  "pub_date_source a = py_or (dict_get a ''pubDate'' JNull) (dict_get a ''pub_date'' (JStr []))"

fun first_strptime :: "pylib \<Rightarrow> ustring \<Rightarrow> string list \<Rightarrow> datetime option" where
  "first_strptime lib s [] = None"
| "first_strptime lib s (fmt # fmts) =
     (case lib_strptime lib s fmt of
        Inr dt \<Rightarrow> Some dt
      | Inl e \<Rightarrow> first_strptime lib s fmts)"

definition parse_pub_date :: "pylib \<Rightarrow> json \<Rightarrow> int option" where
  "parse_pub_date lib pub_date =
     (if truthy pub_date then
        (case pub_date of
           JStr s \<Rightarrow>
             (let dt =
                (case py_fromisoformat (lib_fromisoformat lib)
                        (replace_char (uc CHR ''Z'') (ustr ''+00:00'') s) of
                   Inr dt \<Rightarrow> Some dt
                 | Inl e \<Rightarrow>
                     first_strptime lib s [''%Y-%m-%d %H:%M:%S'', ''%Y-%m-%dT%H:%M:%S'', ''%Y-%m-%d''])
              in case dt of
                   None \<Rightarrow> None
                 | Some dt \<Rightarrow>
                     (case py_timestamp (lib_timestamp lib) dt of
                        Inr t \<Rightarrow> Some t
                      | Inl e \<Rightarrow> None))
         | JInt i \<Rightarrow> Some i
         | JBool b \<Rightarrow> Some (if b then 1 else 0)
         | JFloat f \<Rightarrow> (case int_of_float f of Inr t \<Rightarrow> Some t | Inl e \<Rightarrow> None)
         | _ \<Rightarrow> None)
      else None)"

text \<open>Lines 33 and 34: the title, \<open>None\<close> when the record has none.\<close>

definition title_of :: "pylib \<Rightarrow> (ustring \<times> json) list \<Rightarrow> ustring option" where
  "title_of lib a =
     (let title = py_or (dict_get a ''title'' JNull) (dict_get a ''headline'' (JStr []))
      in if truthy title then Some (strip (py_str lib title)) else None)"

text \<open>
  Lines 36 to 42: the body text, put together from the title, the description and the
  content. \<open>content.upper()\<close> and \<open>part.strip()\<close> raise when the object is no \<open>str\<close>;
  an object that is not true has become \<open>''\<close> before.
\<close>

definition assemble_body_text :: "pylib \<Rightarrow> (ustring \<times> json) list \<Rightarrow> exn + ustring" where
  "assemble_body_text lib a =
     (let description = py_or (dict_get a ''description'' (JStr [])) (JStr []);
          content = py_or (dict_get a ''content'' (JStr [])) (JStr [])
      in case (if truthy content then as_str content else Inr []) of
           Inl e \<Rightarrow> Inl e
         | Inr c \<Rightarrow>
             (let content =
                    (if c \<noteq> [] \<and> is_substr (ustr ''ONLY AVAILABLE'') (py_upper (lib_upper lib) c)
                     then [] else c)
              in case (if truthy description then as_str description else Inr []) of
                   Inl e \<Rightarrow> Inl e
                 | Inr descr \<Rightarrow>
                     (let body_text_parts =
                            [case title_of lib a of None \<Rightarrow> [] | Some t \<Rightarrow> t, descr, content]
                      in Inr (join (ustr '' '')
                           (filter (\<lambda>part. part \<noteq> [] \<and> strip part \<noteq> []) body_text_parts)))))"

text \<open>
  The body of the \<open>try\<close> of \<open>validate_and_enforce_schema\<close>. \<open>article.get\<close> raises when
  the record is no \<open>dict\<close>.
\<close>

definition validate_body :: "pylib \<Rightarrow> json \<Rightarrow> nat \<Rightarrow> exn + article option" where
  "validate_body lib raw article_idx =
     (case raw of
        JDict a \<Rightarrow>
          (let article_id = py_or (dict_get a ''article_id'' JNull)
                 (JStr (ustr ''article_'' @ fmt_04d article_idx))
           in case assemble_body_text lib a of
                Inl e \<Rightarrow> Inl e
              | Inr assembled \<Rightarrow>
                  (let body_text = assembled;
                       source0 = py_or (py_or (dict_get a ''source_name'' JNull)
                         (dict_get a ''source_id'' (JStr []))) (JStr []);
                       source = strip (py_str lib source0);
                       url0 = py_or (py_or (dict_get a ''link'' JNull)
                         (dict_get a ''url'' (JStr []))) (JStr []);
                       url = strip (py_str lib url0);
                       domain =
                         (if url \<noteq> [] then
                            (case lib_netloc lib url of Inr n \<Rightarrow> n | Inl e \<Rightarrow> [])
                          else []);
                       category0 = dict_get a ''category'' (JList []);
                       category1 =
                         (case category0 of
                            JList cs \<Rightarrow> cs
                          | _ \<Rightarrow> (if truthy category0 then [category0] else []));
                       category = map (\<lambda>c. strip (py_str lib c)) (filter truthy category1);
                       pub_datetime = parse_pub_date lib (pub_date_source a)
                   in if body_text = [] \<or> length (strip body_text) < 10 then Inr None
                      else Inr (Some
                        \<lparr>article_id = py_str lib article_id, title = title_of lib a,
                         body_text = body_text, source = source, domain = domain,
                         category = category, pub_datetime = pub_datetime, url = url,
                         flags = [], character_count = None, token_count = None,
                         sentence_count = None\<rparr>)))
      | _ \<Rightarrow> Inl AttributeError)"

text \<open>\<open>except Exception as e: return None\<close>\<close>

definition validate_and_enforce_schema :: "pylib \<Rightarrow> json \<Rightarrow> nat \<Rightarrow> exn + article option" where
  "validate_and_enforce_schema lib raw article_idx =
     (case validate_body lib raw article_idx of
        Inl e \<Rightarrow> (if is_Exception e then Inr None else Inl e)
      | Inr r \<Rightarrow> Inr r)"

section \<open>Steps 6 and 7: linguistic checks and statistics\<close>

definition perform_linguistic_checks :: "article \<Rightarrow> int \<Rightarrow> int \<Rightarrow> article option" where
  "perform_linguistic_checks a min_length max_length =
     (if body_text a = [] then None
      else
        let char_count = int (length (body_text a))
        in if char_count < min_length then None
           else
             let a = (if char_count > max_length
                      then a\<lparr>flags := flags a @ [''extremely_long'']\<rparr> else a);
                 a = (if char_count < 100
                      then a\<lparr>flags := flags a @ [''very_short'']\<rparr> else a)
             in Some a)"

text \<open>
  \<open>re.split(r'[.!?]+', s)\<close>: the pieces between the runs of marks, the first and the
  last one too when they are empty.
\<close>

function split_marks :: "ustring \<Rightarrow> ustring list" where
  "split_marks s =
     takeWhile (\<lambda>x. \<not> is_term x) s #
       (case dropWhile (\<lambda>x. \<not> is_term x) s of
          [] \<Rightarrow> []
        | c # cs \<Rightarrow> split_marks (dropWhile is_term cs))"
  by pat_completeness auto
termination
proof (relation "measure length")
  fix s :: ustring and c cs
  assume a: "dropWhile (\<lambda>x. \<not> is_term x) s = c # cs"
  have "length (dropWhile is_term cs) \<le> length cs"
    by (rule length_dropWhile_le)
  moreover have "length (dropWhile (\<lambda>x. \<not> is_term x) s) \<le> length s"
    by (rule length_dropWhile_le)
  ultimately show "(dropWhile is_term cs, s) \<in> measure length"
    using a by simp
qed simp

declare split_marks.simps [simp del]

definition add_derived_statistics :: "article \<Rightarrow> article" where
  "add_derived_statistics a =
     (let text = body_text a;
          character_count = length text;
          tokens = split_ws text;
          token_count = length tokens;
          sentences = split_marks text;
          sentence_count = length (filter (\<lambda>s. strip s \<noteq> []) sentences)
      in a\<lparr>character_count := Some character_count, token_count := Some token_count,
           sentence_count := Some sentence_count\<rparr>)"

section \<open>The batch driver\<close>

text \<open>
  The body of the loop of \<open>process_articles\<close> for one raw record: \<open>None\<close> where the loop
  goes on with \<open>continue\<close>, the article it appends otherwise.
\<close>

definition process_record ::
  "pylib \<Rightarrow> bool \<Rightarrow> int \<Rightarrow> int \<Rightarrow> nat \<Rightarrow> json \<Rightarrow> exn + article option" where
  "process_record lib normalize_numbers_flag min_length max_length idx raw =
     (case validate_and_enforce_schema lib raw idx of
        Inl e \<Rightarrow> Inl e
      | Inr None \<Rightarrow> Inr None
      | Inr (Some validated) \<Rightarrow>
          (let text = body_text validated;
               t = (case title validated of None \<Rightarrow> [] | Some t \<Rightarrow> t);
               text = sanitize_text (lib_charref_sub lib) text;
               t1 = (if t \<noteq> [] then sanitize_text (lib_charref_sub lib) t else t);
               validated = (if t \<noteq> [] then validated\<lparr>title := Some t1\<rparr> else validated);
               validated = validated\<lparr>body_text := text\<rparr>;
               text = normalize_unicode_and_case (lib_nfkc lib) (lib_lower lib) text;
               t2 = (if t1 \<noteq> [] then normalize_unicode_and_case (lib_nfkc lib) (lib_lower lib) t1
                     else t1);
               validated = (if t1 \<noteq> [] then validated\<lparr>title := Some t2\<rparr> else validated);
               validated = validated\<lparr>body_text := text\<rparr>;
               text = normalize_sentence_boundaries text;
               validated = validated\<lparr>body_text := text\<rparr>;
               text = normalize_numbers (lib_num_sub lib) text normalize_numbers_flag;
               validated = validated\<lparr>body_text := text\<rparr>
           in case perform_linguistic_checks validated min_length max_length of
                None \<Rightarrow> Inr None
              | Some checked \<Rightarrow> Inr (Some (add_derived_statistics checked))))"

text \<open>
  The loop over \<open>enumerate(raw_articles)\<close>, with the list \<open>cleaned_articles\<close> and the
  index as its state; an exception of the body would leave the loop.
\<close>

fun process_loop ::
  "pylib \<Rightarrow> bool \<Rightarrow> int \<Rightarrow> int \<Rightarrow> nat \<Rightarrow> json list \<Rightarrow> article list \<Rightarrow> exn + article list" where
  "process_loop lib nf lo hi idx [] cleaned_articles = Inr cleaned_articles"
| "process_loop lib nf lo hi idx (raw # raws) cleaned_articles =
     (case process_record lib nf lo hi idx raw of
        Inl e \<Rightarrow> Inl e
      | Inr None \<Rightarrow> process_loop lib nf lo hi (Suc idx) raws cleaned_articles
      | Inr (Some with_stats) \<Rightarrow>
          process_loop lib nf lo hi (Suc idx) raws (cleaned_articles @ [with_stats]))"

definition process_articles ::
  "pylib \<Rightarrow> json list \<Rightarrow> bool \<Rightarrow> int \<Rightarrow> int \<Rightarrow> exn + article list" where
  "process_articles lib raw_articles normalize_numbers_flag min_length max_length =
     process_loop lib normalize_numbers_flag min_length max_length 0 raw_articles []"


section \<open>A library for the scenarios\<close>

text \<open>
  The closed statements below need these values of the Unicode character database: the
  text U+0068 U+0331 (\<open>h\<close>, combining macron below) composes to U+1E96 (\<open>h\<close> with line
  below); the texts U+0048 U+0331 and U+1E96 are in normal form, and so is a text of
  ASCII letters and U+2014 (em dash); lower case maps the ASCII capitals to the small
  letters and leaves U+0331, U+1E96 and U+2014 alone. \<open>ucd_nfkc\<close> and \<open>ucd_lower\<close> are the
  library's functions on these texts; they are applied to no other text that is not
  ASCII. No other function of the library is reached by a scenario.
\<close>

definition ucd_nfkc :: "ustring \<Rightarrow> ustring" where
  "ucd_nfkc s = (if s = [104, 817] then [7830] else s)"

definition ucd_lower :: "ustring \<Rightarrow> ustring" where
  "ucd_lower s = map ascii_lower s"

definition scenario_lib :: pylib where
  "scenario_lib =
     \<lparr>lib_charref_sub = (\<lambda>s. s), lib_nfkc = ucd_nfkc, lib_lower = ucd_lower,
      lib_upper = map ascii_upper, lib_num_sub = (\<lambda>s. s), lib_repr = (\<lambda>v. []),
      lib_netloc = (\<lambda>u. Inr []), lib_fromisoformat = (\<lambda>s. Inl ValueError),
      lib_strptime = (\<lambda>s fmt. Inl ValueError), lib_timestamp = (\<lambda>dt. Inl OSError)\<rparr>"

text \<open>The records of the scenarios\<close>

definition scenario1_record :: json where
  "scenario1_record = JDict
     [(ustr ''title'', JStr (ustr ''Big <b>Win</b>!!!'')),
      (ustr ''description'', JStr (ustr ''See http://x.co now'')),
      (ustr ''content'', JStr (ustr ''ONLY AVAILABLE in paid plan''))]"

definition markup_record :: json where
  "markup_record = JDict [(ustr ''title'', JStr (ustr ''<b>0123456789</b>''))]"

definition dated_fields :: "(ustring \<times> json) list" where
  "dated_fields =
     [(ustr ''title'', JStr (ustr ''Some headline here'')),
      (ustr ''pubDate'', JStr (ustr ''2024-05-01T10:00:00Z''))]"

definition short_fields :: "(ustring \<times> json) list" where
  "short_fields = [(ustr ''title'', JStr (ustr ''Too short''))]"

section \<open>Substitution, tags and addresses\<close>



























section \<open>Addresses after the later steps\<close>





























section \<open>Validation\<close>

lemma assemble_body_text_raises: "assemble_body_text lib a = Inl e \<Longrightarrow> e = AttributeError"
  by (auto simp: assemble_body_text_def as_str_def Let_def split: if_splits sum.splits json.splits)

lemma validate_body_raises: "validate_body lib raw idx = Inl e \<Longrightarrow> e = AttributeError"
  by (cases raw)
    (auto simp: validate_body_def Let_def dest: assemble_body_text_raises split: sum.splits if_splits)

lemma validate_returns: "\<exists>r. validate_and_enforce_schema lib raw idx = Inr r"
proof (cases "validate_body lib raw idx")
  case (Inl e)
  then have "e = AttributeError" by (rule validate_body_raises)
  then show ?thesis using Inl by (simp add: validate_and_enforce_schema_def)
next
  case (Inr r)
  then show ?thesis by (simp add: validate_and_enforce_schema_def)
qed

lemma length_strip_le: "length (strip s) \<le> length s"
proof -
  have "length (strip s) \<le> length (dropWhile isspace s)"
    unfolding strip_def using length_dropWhile_le [of isspace "rev (dropWhile isspace s)"] by simp
  also have "\<dots> \<le> length s" by (rule length_dropWhile_le)
  finally show ?thesis .
qed

lemma validate_accepts:
  assumes "validate_and_enforce_schema lib raw idx = Inr (Some v)"
  shows "\<exists>a. raw = JDict a \<and> assemble_body_text lib a = Inr (body_text v) \<and>
           10 \<le> length (strip (body_text v))"
proof -
  from assms have b: "validate_body lib raw idx = Inr (Some v)"
    by (auto simp: validate_and_enforce_schema_def split: sum.splits if_splits)
  then obtain a where raw: "raw = JDict a"
    by (cases raw) (auto simp: validate_body_def)
  from b raw show ?thesis
    by (auto simp: validate_body_def Let_def split: sum.splits if_splits)
qed

lemma validate_rejects_short:
  assumes "assemble_body_text lib a = Inr b" and "length (strip b) < 10"
  shows "validate_and_enforce_schema lib (JDict a) idx = Inr None"
  using assms by (simp add: validate_and_enforce_schema_def validate_body_def Let_def)

section \<open>The loop of the batch driver\<close>

lemma process_record_returns: "\<exists>r. process_record lib nf lo hi idx raw = Inr r"
proof -
  obtain r where "validate_and_enforce_schema lib raw idx = Inr r"
    using validate_returns by blast
  then show ?thesis
    by (cases r) (auto simp: process_record_def Let_def split: option.splits)
qed

lemma process_record_gate:
  assumes "validate_and_enforce_schema lib raw idx = Inr (Some v)"
  shows "(process_record lib nf lo hi idx raw = Inr None) =
     (let text = normalize_numbers (lib_num_sub lib)
       (normalize_sentence_boundaries
         (normalize_unicode_and_case (lib_nfkc lib) (lib_lower lib)
           (sanitize_text (lib_charref_sub lib) (body_text v)))) nf
      in text = [] \<or> int (length text) < lo)"
  using assms
  by (auto simp: process_record_def perform_linguistic_checks_def Let_def
      split: option.splits if_splits)

lemma process_record_survivor:
  assumes "process_record lib nf lo hi idx raw = Inr (Some a)"
  shows "character_count a = Some (length (body_text a)) \<and> lo \<le> int (length (body_text a)) \<and>
    body_text a \<noteq> []"
proof -
  from assms obtain v where "validate_and_enforce_schema lib raw idx = Inr (Some v)"
    by (auto simp: process_record_def split: sum.splits option.splits)
  with assms show ?thesis
    by (auto simp: process_record_def perform_linguistic_checks_def add_derived_statistics_def
        Let_def split: option.splits if_splits)
qed

lemma process_loop_spec:
  "\<exists>out. process_loop lib nf lo hi idx raws acc = Inr (acc @ out) \<and>
     map (\<lambda>a. Inr (Some a)) out =
       map (\<lambda>i. process_record lib nf lo hi (idx + i) (raws ! i))
         (filter (\<lambda>i. process_record lib nf lo hi (idx + i) (raws ! i) \<noteq> Inr None)
           [0..<length raws])"
proof (induction raws arbitrary: idx acc)
  case Nil
  then show ?case by simp
next
  case (Cons r rs)
  let ?f = "\<lambda>k i. process_record lib nf lo hi (k + i) ((r # rs) ! i)"
  let ?g = "\<lambda>k i. process_record lib nf lo hi (k + i) (rs ! i)"
  have up: "[0..<length (r # rs)] = 0 # map Suc [0..<length rs]"
    by (simp add: upt_conv_Cons map_Suc_upt del: upt_Suc)
  have tl: "map (?f idx) (filter (\<lambda>i. ?f idx i \<noteq> Inr None) (map Suc [0..<length rs]))
      = map (?g (Suc idx)) (filter (\<lambda>i. ?g (Suc idx) i \<noteq> Inr None) [0..<length rs])"
    by (simp add: filter_map comp_def)
  obtain x where x: "process_record lib nf lo hi idx r = Inr x"
    using process_record_returns by blast
  show ?case
  proof (cases x)
    case None
    obtain out where o: "process_loop lib nf lo hi (Suc idx) rs acc = Inr (acc @ out)"
      "map (\<lambda>a. Inr (Some a)) out =
         map (?g (Suc idx)) (filter (\<lambda>i. ?g (Suc idx) i \<noteq> Inr None) [0..<length rs])"
      using Cons [of "Suc idx" acc] by blast
    have "map (?f idx) (filter (\<lambda>i. ?f idx i \<noteq> Inr None) [0..<length (r # rs)])
        = map (?g (Suc idx)) (filter (\<lambda>i. ?g (Suc idx) i \<noteq> Inr None) [0..<length rs])"
      unfolding up using x None tl by simp
    then show ?thesis using x None o by auto
  next
    case (Some a)
    obtain out where o: "process_loop lib nf lo hi (Suc idx) rs (acc @ [a]) = Inr ((acc @ [a]) @ out)"
      "map (\<lambda>a. Inr (Some a)) out =
         map (?g (Suc idx)) (filter (\<lambda>i. ?g (Suc idx) i \<noteq> Inr None) [0..<length rs])"
      using Cons [of "Suc idx" "acc @ [a]"] by blast
    have "map (?f idx) (filter (\<lambda>i. ?f idx i \<noteq> Inr None) [0..<length (r # rs)])
        = Inr (Some a) # map (?g (Suc idx)) (filter (\<lambda>i. ?g (Suc idx) i \<noteq> Inr None) [0..<length rs])"
      unfolding up using x Some tl by simp
    then have "map (\<lambda>a. Inr (Some a)) (a # out) =
        map (?f idx) (filter (\<lambda>i. ?f idx i \<noteq> Inr None) [0..<length (r # rs)])"
      using o(2) by simp
    moreover have "process_loop lib nf lo hi idx (r # rs) acc = Inr (acc @ a # out)"
      using x Some o(1) by simp
    ultimately show ?thesis by blast
  qed
qed

lemma process_loop_invariant:
  assumes "process_loop lib nf lo hi idx raws acc = Inr out"
    and "\<forall>a\<in>set acc. P a"
    and "\<And>i raw a. process_record lib nf lo hi i raw = Inr (Some a) \<Longrightarrow> P a"
  shows "\<forall>a\<in>set out. P a"
  using assms(1,2)
proof (induction raws arbitrary: idx acc)
  case Nil
  then show ?case by simp
next
  case (Cons r rs)
  show ?case
  proof (cases "process_record lib nf lo hi idx r")
    case (Inl e)
    then show ?thesis using Cons.prems by simp
  next
    case (Inr x)
    show ?thesis
    proof (cases x)
      case None
      then show ?thesis using Inr Cons by simp
    next
      case (Some a)
      then have "P a" using Inr assms(3) by blast
      then have "\<forall>b\<in>set (acc @ [a]). P b" using Cons.prems(2) by simp
      moreover have "process_loop lib nf lo hi (Suc idx) rs (acc @ [a]) = Inr out"
        using Cons.prems(1) Inr Some by simp
      ultimately show ?thesis using Cons.IH by blast
    qed
  qed
qed

section \<open>Normalization applied twice\<close>

lemma replace_char_absent: "old \<notin> set s \<Longrightarrow> replace_char old new s = s"
  by (induction s) (auto simp: replace_char_def)

lemma replace_char_same: "replace_char c [c] s = s"
  by (induction s) (auto simp: replace_char_def)

lemma replace_str_absent: "\<not> is_substr old s \<Longrightarrow> replace_str old new s = s"
  by (induction s) (auto simp: replace_str_def lit_m_def)

lemma replace_char_removes: "old \<notin> set new \<Longrightarrow> old \<notin> set (replace_char old new s)"
  by (induction s) (auto simp: replace_char_def)

lemma replace_char_keeps_out:
  "x \<notin> set s \<Longrightarrow> x \<notin> set new \<Longrightarrow> x \<notin> set (replace_char old new s)"
  by (induction s) (auto simp: replace_char_def)

lemma normalize_no_dash:
  "8211 \<notin> set (normalize_unicode_and_case nfkc lower s) \<and>
   8212 \<notin> set (normalize_unicode_and_case nfkc lower s)"
proof (cases "s = []")
  case True
  then show ?thesis by (simp add: normalize_unicode_and_case_def)
next
  case False
  have a: "8211 \<notin> set (replace_char 8211 (ustr ''-'') x)" for x
    by (rule replace_char_removes) (simp add: ustr_def uc_def)
  have "8212 \<notin> set (replace_char 8212 (ustr ''-'') x)" for x
    by (rule replace_char_removes) (simp add: ustr_def uc_def)
  then have b: "8212 \<notin> set (replace_char 8211 (ustr ''-'') (replace_char 8212 (ustr ''-'') x))" for x
    by (rule replace_char_keeps_out) (simp add: ustr_def uc_def)
  show ?thesis
    using False a b by (simp add: normalize_unicode_and_case_def Let_def)
qed

lemma normalize_fixed:
  assumes "py_nfkc nfkc t = t" and "py_lower lower t = t" and "\<not> is_substr quote_literal t"
    and "8211 \<notin> set t" and "8212 \<notin> set t"
  shows "normalize_unicode_and_case nfkc lower t = t"
  using assms
  by (simp add: normalize_unicode_and_case_def Let_def replace_str_absent replace_char_same
      replace_char_absent)

lemma normalize_idem_general:
  assumes "py_nfkc nfkc (normalize_unicode_and_case nfkc lower s) = normalize_unicode_and_case nfkc lower s"
    and "py_lower lower (normalize_unicode_and_case nfkc lower s) = normalize_unicode_and_case nfkc lower s"
    and "\<not> is_substr quote_literal (normalize_unicode_and_case nfkc lower s)"
  shows "normalize_unicode_and_case nfkc lower (normalize_unicode_and_case nfkc lower s) =
    normalize_unicode_and_case nfkc lower s"
  using assms normalize_no_dash [of nfkc lower s] by (intro normalize_fixed) simp_all

section \<open>Leading marks\<close>

lemma re_sub_no_match_prefix:
  "(\<And>i. i < length pre \<Longrightarrow> m (pre ! i) (drop (Suc i) pre @ s) = None) \<Longrightarrow>
    re_sub m (pre @ s) = pre @ re_sub m s"
proof (induction pre)
  case Nil
  then show ?case by simp
next
  case (Cons p ps)
  have "m p (ps @ s) = None" using Cons.prems [of 0] by simp
  moreover have "re_sub m (ps @ s) = ps @ re_sub m s"
  proof (rule Cons.IH)
    fix i assume "i < length ps"
    then show "m (ps ! i) (drop (Suc i) ps @ s) = None"
      using Cons.prems [of "Suc i"] by simp
  qed
  ultimately show ?case by simp
qed

lemma punct_not_space: "is_punct c \<Longrightarrow> \<not> isspace c"
  by (auto simp: is_punct_def isspace_def ustr_def uc_def)

lemma term_is_punct: "is_term c \<Longrightarrow> is_punct c"
  by (auto simp: is_punct_def is_term_def ustr_def uc_def)

lemma strip_head: "\<not> isspace c \<Longrightarrow> \<exists>ys. strip (c # xs) = c # ys"
proof -
  assume c: "\<not> isspace c"
  have "\<exists>zs. dropWhile isspace (rev xs @ [c]) = zs @ [c]"
  proof (cases "\<forall>x\<in>set (rev xs). isspace x")
    case True
    then have "dropWhile isspace (rev xs @ [c]) = [] @ [c]"
      using c by (simp add: dropWhile_append)
    then show ?thesis by blast
  next
    case False
    then have "dropWhile isspace (rev xs @ [c]) = dropWhile isspace (rev xs) @ [c]"
      by (auto simp: dropWhile_append)
    then show ?thesis by blast
  qed
  then obtain zs where "dropWhile isspace (rev xs @ [c]) = zs @ [c]" by blast
  then show ?thesis using c by (simp add: strip_def)
qed

text \<open>A text that begins with marks, then white space, then another character.\<close>

lemma mark_gap_lead:
  assumes ps: "ps \<noteq> []" "list_all is_punct ps" and ws: "ws \<noteq> []" "list_all isspace ws"
    and c: "\<not> is_punct c" "\<not> isspace c" and k: "is_punct k"
  shows "\<exists>ws' rest'. re_sub (mark_gap_m k) (ps @ ws @ c # rest) = ps @ ws' @ c # rest' \<and>
    ws' \<noteq> [] \<and> list_all isspace ws'"
proof -
  let ?m = "mark_gap_m k"
  have ck: "?m c rest = None" using c k by (auto simp: mark_gap_m_def Let_def)
  then have r: "re_sub ?m (c # rest) = c # re_sub ?m rest" by simp
  have tw: "takeWhile isspace (ws @ c # rest) = ws"
    using ws c by (simp add: takeWhile_append2 list_all_iff)
  have w: "re_sub ?m (ws @ c # rest) = ws @ re_sub ?m (c # rest)"
  proof (rule re_sub_no_match_prefix)
    fix i assume "i < length ws"
    then have "isspace (ws ! i)" using ws by (simp add: list_all_length)
    then have "ws ! i \<noteq> k" using k punct_not_space by blast
    then show "?m (ws ! i) (drop (Suc i) ws @ c # rest) = None"
      by (simp add: mark_gap_m_def Let_def)
  qed
  obtain ps0 p where p: "ps = ps0 @ [p]"
    using ps(1) by (metis rev_exhaust)
  have pp: "is_punct p" using ps p by simp
  have "re_sub ?m (ps0 @ (p # ws @ c # rest)) = ps0 @ re_sub ?m (p # ws @ c # rest)"
  proof (rule re_sub_no_match_prefix)
    fix i assume i: "i < length ps0"
    have "hd (drop (Suc i) ps0 @ p # ws @ c # rest) \<in> set ps"
    proof (cases "drop (Suc i) ps0")
      case Nil
      then show ?thesis using p by simp
    next
      case (Cons a l)
      then have "a \<in> set (drop (Suc i) ps0)" by simp
      then have "a \<in> set ps0" by (rule in_set_dropD)
      then show ?thesis using p Cons by simp
    qed
    then have "\<not> isspace (hd (drop (Suc i) ps0 @ p # ws @ c # rest))"
      using ps(2) punct_not_space by (auto simp: list_all_iff)
    then have "takeWhile isspace (drop (Suc i) ps0 @ p # ws @ c # rest) = []"
      by (cases "drop (Suc i) ps0 @ p # ws @ c # rest") auto
    then show "?m (ps0 ! i) (drop (Suc i) ps0 @ p # ws @ c # rest) = None"
      by (simp add: mark_gap_m_def Let_def)
  qed
  then have a: "re_sub ?m (ps @ ws @ c # rest) = ps0 @ re_sub ?m (p # ws @ c # rest)"
    using p by simp
  show ?thesis
  proof (cases "p = k \<and> 2 \<le> length ws")
    case True
    then have "?m p (ws @ c # rest) = Some ([k, 32], length ws)"
      using tw by (simp add: mark_gap_m_def Let_def)
    then have "re_sub ?m (p # ws @ c # rest) = [k, 32] @ re_sub ?m (c # rest)"
      by simp
    then have "re_sub ?m (ps @ ws @ c # rest) = ps @ [32] @ c # re_sub ?m rest"
      using a p r True by simp
    moreover have "list_all isspace [32]" by (simp add: isspace_def)
    ultimately show ?thesis by blast
  next
    case False
    then have "?m p (ws @ c # rest) = None"
      using tw by (auto simp: mark_gap_m_def Let_def)
    then have "re_sub ?m (p # ws @ c # rest) = p # ws @ c # re_sub ?m rest"
      using w r by simp
    then have "re_sub ?m (ps @ ws @ c # rest) = ps @ ws @ c # re_sub ?m rest"
      using a p by simp
    then show ?thesis using ws by blast
  qed
qed

lemma orphan_lead:
  assumes ps: "list_all is_punct ps" and ws: "list_all isspace ws"
    and c: "\<not> is_punct c" "\<not> isspace c"
  shows "re_sub orphan_m (ps @ ws @ c # rest) = ps @ ws @ c # re_sub orphan_m rest"
proof -
  have "re_sub orphan_m (c # rest) = c # re_sub orphan_m rest"
    using c by (simp add: orphan_m_def Let_def)
  moreover have "re_sub orphan_m (ws @ c # rest) = ws @ re_sub orphan_m (c # rest)"
  proof (rule re_sub_no_match_prefix)
    fix i assume "i < length ws"
    have "list_all isspace (drop (Suc i) ws)"
      using ws by (auto simp: list_all_iff dest: in_set_dropD)
    then have "dropWhile isspace (drop (Suc i) ws @ c # rest) = c # rest"
      using c by (simp add: dropWhile_append2 list_all_iff)
    then show "orphan_m (ws ! i) (drop (Suc i) ws @ c # rest) = None"
      using c by (simp add: orphan_m_def Let_def)
  qed
  moreover have "re_sub orphan_m (ps @ (ws @ c # rest)) = ps @ re_sub orphan_m (ws @ c # rest)"
  proof (rule re_sub_no_match_prefix)
    fix i assume "i < length ps"
    then have "\<not> isspace (ps ! i)"
      using ps punct_not_space by (simp add: list_all_length)
    then show "orphan_m (ps ! i) (drop (Suc i) ps @ ws @ c # rest) = None"
      by (simp add: orphan_m_def Let_def)
  qed
  ultimately show ?thesis by simp
qed

lemma strip_leading_marks_lead:
  assumes ps: "ps \<noteq> []" "list_all is_punct ps" and ws: "ws \<noteq> []" "list_all isspace ws"
    and c: "\<not> is_punct c" "\<not> isspace c"
  shows "strip_leading_marks (ps @ ws @ c # rest) = c # rest"
proof -
  have "\<not> isspace (hd ps)" using ps punct_not_space by (cases ps) auto
  then have r1: "dropWhile isspace (ps @ ws @ c # rest) = ps @ ws @ c # rest"
    using ps(1) by (cases ps) auto
  have "\<not> is_punct (hd ws)" using ws punct_not_space by (cases ws) auto
  then have h: "takeWhile is_punct (ws @ c # rest) = []" "dropWhile is_punct (ws @ c # rest) = ws @ c # rest"
    using ws(1) by (cases ws; simp)+
  have t: "takeWhile is_punct (ps @ ws @ c # rest) = ps"
    using ps(2) h by (simp add: takeWhile_append2 list_all_iff)
  have d: "dropWhile is_punct (ps @ ws @ c # rest) = ws @ c # rest"
    using ps(2) h by (simp add: dropWhile_append2 list_all_iff)
  have tw: "takeWhile isspace (ws @ c # rest) = ws"
    using ws c by (simp add: takeWhile_append2 list_all_iff)
  have dw: "dropWhile isspace (ws @ c # rest) = c # rest"
    using ws c by (simp add: dropWhile_append2 list_all_iff)
  show ?thesis
    unfolding strip_leading_marks_def r1 Let_def t d tw dw using ps(1) ws(1) by simp
qed

lemma normalize_sentence_boundaries_lead:
  assumes ps: "ps \<noteq> []" "list_all is_punct ps" and ws: "ws \<noteq> []" "list_all isspace ws"
    and c: "\<not> is_punct c" "\<not> isspace c"
  shows "\<exists>out. normalize_sentence_boundaries (ps @ ws @ c # rest) = c # out"
proof -
  have k: "is_punct (uc CHR ''.'')" "is_punct (uc CHR ''!'')" "is_punct (uc CHR ''?'')"
    by (simp_all add: is_punct_def ustr_def)
  obtain w1 r1 where 1: "re_sub (mark_gap_m (uc CHR ''.'')) (ps @ ws @ c # rest) = ps @ w1 @ c # r1"
    "w1 \<noteq> []" "list_all isspace w1"
    using mark_gap_lead [OF ps ws c k(1)] by blast
  obtain w2 r2 where 2: "re_sub (mark_gap_m (uc CHR ''!'')) (ps @ w1 @ c # r1) = ps @ w2 @ c # r2"
    "w2 \<noteq> []" "list_all isspace w2"
    using mark_gap_lead [OF ps 1(2,3) c k(2)] by blast
  obtain w3 r3 where 3: "re_sub (mark_gap_m (uc CHR ''?'')) (ps @ w2 @ c # r2) = ps @ w3 @ c # r3"
    "w3 \<noteq> []" "list_all isspace w3"
    using mark_gap_lead [OF ps 2(2,3) c k(3)] by blast
  have 4: "re_sub orphan_m (ps @ w3 @ c # r3) = ps @ w3 @ c # re_sub orphan_m r3"
    using ps(2) 3(3) c by (rule orphan_lead)
  have 5: "strip_leading_marks (ps @ w3 @ c # re_sub orphan_m r3) = c # re_sub orphan_m r3"
    using ps 3(2,3) c by (rule strip_leading_marks_lead)
  have "\<not> is_term c" using c(1) term_is_punct by blast
  then have 6: "re_sub missed_break_m (c # re_sub orphan_m r3) =
      c # re_sub missed_break_m (re_sub orphan_m r3)"
    by (simp add: missed_break_m_def split: list.splits)
  have ne: "(ps @ ws @ c # rest = []) = False" by simp
  have "\<exists>out. strip (c # re_sub missed_break_m (re_sub orphan_m r3)) = c # out"
    using c(2) by (rule strip_head)
  then show ?thesis
    unfolding normalize_sentence_boundaries_def Let_def ne if_False 1 2 3 4 5 6 .
qed

section \<open>Evaluation of the scenarios\<close>

lemmas string_simps = ustr_def uc_def isspace_def printable_def is_ascii_def strip_def
  replace_char_def is_term_def is_punct_def is_digit_def is_word_def ascii_lower_def
  ascii_upper_def

lemmas stage_simps = sanitize_text_def html_unescape_def tag_m_def url_m_def url_at_def
  url_lit_def starts_ci_def ci_match_def ws_m_def rep_m_def normalize_unicode_and_case_def
  replace_str_def lit_m_def quote_literal_def py_nfkc_def py_lower_def py_upper_def
  normalize_sentence_boundaries_def mark_gap_m_def
  orphan_m_def strip_leading_marks_def missed_break_m_def normalize_numbers_def

lemmas record_simps = validate_and_enforce_schema_def validate_body_def title_of_def
  assemble_body_text_def parse_pub_date_def pub_date_source_def py_or_def dict_get_def
  as_str_def py_str_def

lemma split_ws_Nil: "split_ws [] = []"
  by (simp add: split_ws.simps)

lemma split_ws_Cons:
  "split_ws (c # cs) =
     (if isspace c then split_ws cs
      else (c # takeWhile (\<lambda>x. \<not> isspace x) cs) # split_ws (dropWhile (\<lambda>x. \<not> isspace x) cs))"
  by (subst (1 2) split_ws.simps) simp

lemma split_marks_Nil: "split_marks [] = [[]]"
  by (simp add: split_marks.simps)

lemma split_marks_Cons:
  "split_marks (c # cs) =
     (if is_term c then [] # split_marks (dropWhile is_term cs)
      else takeWhile (\<lambda>x. \<not> is_term x) (c # cs) #
        (case dropWhile (\<lambda>x. \<not> is_term x) cs of
           [] \<Rightarrow> []
         | d # ds \<Rightarrow> split_marks (dropWhile is_term ds)))"
  by (subst split_marks.simps) simp

lemmas split_simps = split_ws_Nil split_ws_Cons split_marks_Nil split_marks_Cons

lemma scenario1_validate:
  "validate_and_enforce_schema lib scenario1_record idx = Inr (Some
     \<lparr>article_id = ustr ''article_'' @ fmt_04d idx, title = Some (ustr ''Big <b>Win</b>!!!''),
      body_text = ustr ''Big <b>Win</b>!!! See http://x.co now'', source = [], domain = [],
      category = [], pub_datetime = None, url = [], flags = [], character_count = None,
      token_count = None, sentence_count = None\<rparr>)"
  by (simp add: scenario1_record_def record_simps string_simps stage_simps Let_def)

lemma scenario1_text:
  "normalize_sentence_boundaries
     (normalize_unicode_and_case nfkc lower
       (sanitize_text charref_sub (ustr ''Big <b>Win</b>!!! See http://x.co now'')))
     = ustr ''big win! see now''"
  by (simp add: string_simps stage_simps Let_def)

lemma scenario1_title:
  "normalize_unicode_and_case nfkc lower (sanitize_text charref_sub (ustr ''Big <b>Win</b>!!!''))
     = ustr ''big win!''"
  "sanitize_text charref_sub (ustr ''Big <b>Win</b>!!!'') \<noteq> []"
  by (simp_all add: string_simps stage_simps Let_def)

lemma scenario1_numbers:
  "normalize_numbers num_sub (ustr ''big win! see now'') nf = ustr ''big win! see now''"
  by (simp add: normalize_numbers_def string_simps Let_def)

lemma scenario1_statistics:
  "add_derived_statistics (a\<lparr>body_text := ustr ''big win! see now''\<rparr>) =
     a\<lparr>body_text := ustr ''big win! see now'', character_count := Some 16,
       token_count := Some 4, sentence_count := Some 2\<rparr>"
  by (simp add: add_derived_statistics_def Let_def string_simps split_simps)

lemma scenario1_process:
  assumes "lo \<le> 16" and "16 \<le> hi"
  shows "process_record lib nf lo hi idx scenario1_record = Inr (Some
     \<lparr>article_id = ustr ''article_'' @ fmt_04d idx, title = Some (ustr ''big win!''),
      body_text = ustr ''big win! see now'', source = [], domain = [],
      category = [], pub_datetime = None, url = [], flags = [''very_short''],
      character_count = Some 16, token_count = Some 4, sentence_count = Some 2\<rparr>)"
proof -
  have l: "length (ustr ''big win! see now'') = 16" "ustr ''big win! see now'' \<noteq> []"
    "ustr ''Big <b>Win</b>!!!'' \<noteq> []"
    by (simp_all add: ustr_def)
  let ?a = "\<lparr>article_id = ustr ''article_'' @ fmt_04d idx, title = Some (ustr ''big win!''),
      body_text = ustr ''big win! see now'', source = [], domain = [],
      category = [], pub_datetime = None, url = [], flags = [''very_short''],
      character_count = None, token_count = None, sentence_count = None\<rparr>"
  have st: "add_derived_statistics ?a = ?a\<lparr>character_count := Some 16,
       token_count := Some 4, sentence_count := Some 2\<rparr>"
    using scenario1_statistics [of ?a] by simp
  show ?thesis
    unfolding process_record_def scenario1_validate
    using assms
    by (simp add: Let_def scenario1_text scenario1_title scenario1_numbers l
        perform_linguistic_checks_def st)
qed

lemma fmt_04d_0: "fmt_04d 0 = ustr ''0000''"
  by (simp add: fmt_04d_def digits.simps ustr_def uc_def eval_nat_numeral)

lemma parse_iso_utc: "parse_pub_date lib (JStr (ustr ''2024-05-01T10:00:00Z'')) = Some 1714557600"
  by (simp add: parse_pub_date_def py_fromisoformat_def iso_shape_def dec_def py_timestamp_def
      ymd2ord_def days_before_year_def days_before_month_def days_in_month_def is_leap_def
      string_simps Let_def upt_conv_Cons)

lemma validate_pub_date:
  assumes "validate_and_enforce_schema lib (JDict a) idx = Inr (Some v)"
  shows "pub_datetime v = parse_pub_date lib (pub_date_source a)"
proof -
  from assms have "validate_body lib (JDict a) idx = Inr (Some v)"
    by (auto simp: validate_and_enforce_schema_def split: sum.splits if_splits)
  then show ?thesis
    by (auto simp: validate_body_def Let_def split: sum.splits if_splits)
qed

lemma markup_validate:
  "validate_and_enforce_schema lib markup_record idx = Inr (Some
     \<lparr>article_id = ustr ''article_'' @ fmt_04d idx, title = Some (ustr ''<b>0123456789</b>''),
      body_text = ustr ''<b>0123456789</b>'', source = [], domain = [],
      category = [], pub_datetime = None, url = [], flags = [], character_count = None,
      token_count = None, sentence_count = None\<rparr>)"
  by (simp add: markup_record_def record_simps string_simps stage_simps Let_def)

lemma markup_text:
  "normalize_numbers num_sub
     (normalize_sentence_boundaries
       (normalize_unicode_and_case nfkc lower
         (sanitize_text charref_sub (ustr ''<b>0123456789</b>'')))) False
     = ustr ''0123456789''"
  by (simp add: string_simps stage_simps Let_def)

lemma dated_validate:
  "validate_and_enforce_schema lib (JDict dated_fields) idx = Inr (Some
     \<lparr>article_id = ustr ''article_'' @ fmt_04d idx, title = Some (ustr ''Some headline here''),
      body_text = ustr ''Some headline here'', source = [], domain = [],
      category = [], pub_datetime = Some 1714557600, url = [], flags = [], character_count = None,
      token_count = None, sentence_count = None\<rparr>)"
proof -
  have "parse_pub_date lib (JStr (map uc ''2024-05-01T10:00:00Z'')) = Some 1714557600"
    using parse_iso_utc [of lib] by (simp only: ustr_def)
  then show ?thesis
    by (simp add: dated_fields_def validate_and_enforce_schema_def validate_body_def title_of_def
      assemble_body_text_def pub_date_source_def py_or_def dict_get_def as_str_def py_str_def
      string_simps py_upper_def Let_def)
qed

lemma short_assemble: "assemble_body_text lib short_fields = Inr (ustr ''Too short'')"
  by (simp add: short_fields_def record_simps string_simps stage_simps Let_def)

section \<open>The claims\<close>

text \<open>
  C1: for every list of raw records and every configuration, \<open>process_articles\<close> returns a
  list that is no longer than the input, and the articles in it are the ones produced from
  the records that are not rejected, taken in the order of the input: \<open>idxs\<close> lists the
  positions of those records in increasing order and the output is produced from them
  one by one.
\<close>

theorem process_articles_attrition_order:
  "\<exists>out idxs.
     process_articles lib raw_articles nf lo hi = Inr out \<and>
     length out \<le> length raw_articles \<and>
     idxs = filter (\<lambda>i. process_record lib nf lo hi i (raw_articles ! i) \<noteq> Inr None)
              [0..<length raw_articles] \<and>
     sorted_wrt (<) idxs \<and>
     map (\<lambda>a. Inr (Some a)) out = map (\<lambda>i. process_record lib nf lo hi i (raw_articles ! i)) idxs"
proof -
  let ?idxs = "filter (\<lambda>i. process_record lib nf lo hi i (raw_articles ! i) \<noteq> Inr None)
              [0..<length raw_articles]"
  obtain out where o: "process_loop lib nf lo hi 0 raw_articles [] = Inr ([] @ out)"
    "map (\<lambda>a. Inr (Some a)) out = map (\<lambda>i. process_record lib nf lo hi (0 + i) (raw_articles ! i)) ?idxs"
    using process_loop_spec [of lib nf lo hi 0 raw_articles "[]"] by auto
  have "length out = length ?idxs"
    using arg_cong [OF o(2), of length] by simp
  also have "\<dots> \<le> length [0..<length raw_articles]" by (rule length_filter_le)
  finally have "length out \<le> length raw_articles" by simp
  moreover have "sorted_wrt (<) ?idxs"
    by (rule sorted_wrt_filter) (rule sorted_wrt_upt)
  ultimately show ?thesis using o by (simp add: process_articles_def)
qed

text \<open>
  C2: whatever the raw record (any JSON value, with fields of any type, null or absent)
  and whatever the index, \<open>validate_and_enforce_schema\<close> returns, a record or \<open>None\<close>;
  no exception leaves it.
\<close>

theorem validate_never_raises:
  "\<exists>r. validate_and_enforce_schema lib raw article_idx = Inr r"
  by (rule validate_returns)

text \<open>
  C3, as the code has it: \<open>normalize_unicode_and_case\<close> applied twice is the same as
  applied once for every text whose first result is left alone by NFKC normalization and
  by lower case and does not hold the text that the first \<open>replace\<close> call looks for.
\<close>

theorem normalize_idempotent_when_stable:
  assumes "py_nfkc nfkc (normalize_unicode_and_case nfkc lower s) =
      normalize_unicode_and_case nfkc lower s"
    and "py_lower lower (normalize_unicode_and_case nfkc lower s) =
      normalize_unicode_and_case nfkc lower s"
    and "\<not> is_substr quote_literal (normalize_unicode_and_case nfkc lower s)"
  shows "normalize_unicode_and_case nfkc lower (normalize_unicode_and_case nfkc lower s) =
    normalize_unicode_and_case nfkc lower s"
  using assms by (rule normalize_idem_general)

theorem normalize_idempotent_when_stable_witness:
  "normalize_unicode_and_case ucd_nfkc ucd_lower (ustr ''Big'' @ [8212] @ ustr ''Win'') =
     ustr ''big-win'' \<and>
   py_nfkc ucd_nfkc (ustr ''big-win'') = ustr ''big-win'' \<and>
   py_lower ucd_lower (ustr ''big-win'') = ustr ''big-win'' \<and>
   \<not> is_substr quote_literal (ustr ''big-win'') \<and>
   normalize_unicode_and_case ucd_nfkc ucd_lower (ustr ''big-win'') = ustr ''big-win''"
proof -
  have a: "normalize_unicode_and_case ucd_nfkc ucd_lower (ustr ''Big'' @ [8212] @ ustr ''Win'') =
      ustr ''big-win''"
    and b: "py_nfkc ucd_nfkc (ustr ''big-win'') = ustr ''big-win''"
    and c: "py_lower ucd_lower (ustr ''big-win'') = ustr ''big-win''"
    and d: "\<not> is_substr quote_literal (ustr ''big-win'')"
    by (simp_all add: string_simps stage_simps ucd_nfkc_def ucd_lower_def Let_def)
  have "normalize_unicode_and_case ucd_nfkc ucd_lower
      (normalize_unicode_and_case ucd_nfkc ucd_lower (ustr ''Big'' @ [8212] @ ustr ''Win'')) =
    normalize_unicode_and_case ucd_nfkc ucd_lower (ustr ''Big'' @ [8212] @ ustr ''Win'')"
    by (rule normalize_idempotent_when_stable) (simp_all only: a b c, rule d)
  then show ?thesis using a b c d by simp
qed

text \<open>
  C3 as stated fails. \<open>H\<close> with U+0331 is in normal form and lower case makes it \<open>h\<close> with
  U+0331, which a second application composes to U+1E96. And in the ASCII text
  \<open>, ", "'").replace(").replace(\<close> the first application replaces the middle by an
  apostrophe, which leaves \<open>, "'").replace(\<close>, and the second application replaces that.
\<close>

theorem normalize_not_idempotent_counterexample:
  "normalize_unicode_and_case ucd_nfkc ucd_lower [72, 817] = [104, 817] \<and>
   normalize_unicode_and_case ucd_nfkc ucd_lower
     (normalize_unicode_and_case ucd_nfkc ucd_lower [72, 817]) = [7830] \<and>
   normalize_unicode_and_case ucd_nfkc ucd_lower
     (ustr '', '' @ [34] @ quote_literal @ [34] @ ustr '').replace('') = quote_literal \<and>
   normalize_unicode_and_case ucd_nfkc ucd_lower
     (normalize_unicode_and_case ucd_nfkc ucd_lower
       (ustr '', '' @ [34] @ quote_literal @ [34] @ ustr '').replace('')) = [39]"
  by (simp add: normalize_unicode_and_case_def py_nfkc_def py_lower_def is_ascii_def
      ucd_nfkc_def ucd_lower_def ascii_lower_def replace_char_def Let_def replace_str_def
      lit_m_def quote_literal_def ustr_def uc_def)

text \<open>
  C4: a record that \<open>validate_and_enforce_schema\<close> accepts carries the body text as it was
  put together, and that text has at least 10 characters, also after trimming; a record
  whose body text, put together and trimmed, has fewer than 10 characters is rejected.
\<close>

theorem validate_body_text_length:
  "(validate_and_enforce_schema lib raw idx = Inr (Some v) \<longrightarrow>
      (\<exists>a. raw = JDict a \<and> assemble_body_text lib a = Inr (body_text v)) \<and>
      10 \<le> length (strip (body_text v)) \<and> 10 \<le> length (body_text v)) \<and>
   (assemble_body_text lib b = Inr body \<and> length (strip body) < 10 \<longrightarrow>
      validate_and_enforce_schema lib (JDict b) idx = Inr None)"
proof -
  have "10 \<le> length (body_text v)" if "10 \<le> length (strip (body_text v))"
    using that length_strip_le [of "body_text v"] by simp
  then show ?thesis
    using validate_accepts [of lib raw idx v] validate_rejects_short [of lib b body idx]
    by blast
qed

theorem validate_body_text_length_witness:
  "validate_and_enforce_schema scenario_lib markup_record 0 = Inr (Some
     \<lparr>article_id = ustr ''article_0000'', title = Some (ustr ''<b>0123456789</b>''),
      body_text = ustr ''<b>0123456789</b>'', source = [], domain = [],
      category = [], pub_datetime = None, url = [], flags = [], character_count = None,
      token_count = None, sentence_count = None\<rparr>) \<and>
   10 \<le> length (ustr ''<b>0123456789</b>'') \<and>
   assemble_body_text scenario_lib short_fields = Inr (ustr ''Too short'') \<and>
   length (strip (ustr ''Too short'')) < 10 \<and>
   validate_and_enforce_schema scenario_lib (JDict short_fields) 0 = Inr None"
proof -
  let ?v = "\<lparr>article_id = ustr ''article_0000'', title = Some (ustr ''<b>0123456789</b>''),
      body_text = ustr ''<b>0123456789</b>'', source = [], domain = [],
      category = [], pub_datetime = None, url = [], flags = [], character_count = None,
      token_count = None, sentence_count = None\<rparr>"
  have a: "validate_and_enforce_schema scenario_lib markup_record 0 = Inr (Some ?v)"
    using markup_validate [of scenario_lib 0] by (simp add: fmt_04d_0 ustr_def)
  have b: "assemble_body_text scenario_lib short_fields = Inr (ustr ''Too short'')"
    by (rule short_assemble)
  have c: "length (strip (ustr ''Too short'')) < 10"
    by (simp add: string_simps)
  from a b c show ?thesis
    using validate_body_text_length [of scenario_lib markup_record 0 ?v short_fields "ustr ''Too short''"]
    by simp
qed




text \<open>
  C6, as the code has it: for a record that the validation accepts, the linguistic checks
  reject it exactly when the final body text, after sanitation, Unicode and case
  normalization, sentence boundaries and the optional numbers step, is empty or shorter
  than \<open>min_length\<close>.
\<close>

theorem gate_decides_on_final_text:
  assumes "validate_and_enforce_schema lib raw idx = Inr (Some v)"
  shows "(process_record lib nf min_length max_length idx raw = Inr None) =
     (let text =
        normalize_numbers (lib_num_sub lib)
          (normalize_sentence_boundaries
            (normalize_unicode_and_case (lib_nfkc lib) (lib_lower lib)
              (sanitize_text (lib_charref_sub lib) (body_text v)))) nf
      in text = [] \<or> int (length text) < min_length)"
  using assms by (rule process_record_gate)

theorem gate_decides_on_final_text_witness:
  "validate_and_enforce_schema scenario_lib markup_record 0 = Inr (Some
     \<lparr>article_id = ustr ''article_0000'', title = Some (ustr ''<b>0123456789</b>''),
      body_text = ustr ''<b>0123456789</b>'', source = [], domain = [],
      category = [], pub_datetime = None, url = [], flags = [], character_count = None,
      token_count = None, sentence_count = None\<rparr>) \<and>
   normalize_numbers (lib_num_sub scenario_lib)
     (normalize_sentence_boundaries
       (normalize_unicode_and_case (lib_nfkc scenario_lib) (lib_lower scenario_lib)
         (sanitize_text (lib_charref_sub scenario_lib) (ustr ''<b>0123456789</b>'')))) False
     = ustr ''0123456789'' \<and>
   int (length (ustr ''0123456789'')) < 15 \<and>
   process_record scenario_lib False 15 100000 0 markup_record = Inr None"
proof -
  let ?v = "\<lparr>article_id = ustr ''article_0000'', title = Some (ustr ''<b>0123456789</b>''),
      body_text = ustr ''<b>0123456789</b>'', source = [], domain = [],
      category = [], pub_datetime = None, url = [], flags = [], character_count = None,
      token_count = None, sentence_count = None\<rparr>"
  have a: "validate_and_enforce_schema scenario_lib markup_record 0 = Inr (Some ?v)"
    using markup_validate [of scenario_lib 0] by (simp add: fmt_04d_0 ustr_def)
  have l: "int (length (ustr ''0123456789'')) < 15" by (simp add: ustr_def)
  show ?thesis
    using gate_decides_on_final_text [OF a, of False 15 100000] a l
    by (simp add: markup_text Let_def)
qed

text \<open>
  C6 as stated fails: the body text of this record has 17 characters when the validation
  has put it together, which is not below a \<open>min_length\<close> of 15, and the record is
  rejected all the same, for the 10 characters that are left of it after sanitation.
\<close>

theorem gate_pre_normalization_counterexample:
  "validate_and_enforce_schema scenario_lib markup_record 0 = Inr (Some
     \<lparr>article_id = ustr ''article_0000'', title = Some (ustr ''<b>0123456789</b>''),
      body_text = ustr ''<b>0123456789</b>'', source = [], domain = [],
      category = [], pub_datetime = None, url = [], flags = [], character_count = None,
      token_count = None, sentence_count = None\<rparr>) \<and>
   int (length (ustr ''<b>0123456789</b>'')) = 17 \<and>
   process_record scenario_lib False 15 100000 0 markup_record = Inr None"
proof -
  have a: "validate_and_enforce_schema scenario_lib markup_record 0 = Inr (Some
     \<lparr>article_id = ustr ''article_0000'', title = Some (ustr ''<b>0123456789</b>''),
      body_text = ustr ''<b>0123456789</b>'', source = [], domain = [],
      category = [], pub_datetime = None, url = [], flags = [], character_count = None,
      token_count = None, sentence_count = None\<rparr>)"
    using markup_validate [of scenario_lib 0] by (simp add: fmt_04d_0 ustr_def)
  have l: "int (length (ustr ''0123456789'')) < 15" "int (length (ustr ''<b>0123456789</b>'')) = 17"
    by (simp_all add: ustr_def)
  have "process_record scenario_lib False 15 100000 0 markup_record = Inr None"
    using process_record_gate [OF a, of False 15 100000] l
    by (simp add: markup_text Let_def)
  then show ?thesis using a l by simp
qed

text \<open>
  C7, as the code has it: for the raw record of scenario 1 the validation puts together
  the body text \<open>Big <b>Win</b>!!! See http://x.co now\<close> (the content is dropped),
  sanitation, Unicode and case normalization and sentence boundaries make it
  \<open>big win! see now\<close>, and on that text the statistics count 4 tokens: \<open>big\<close>, \<open>win!\<close>,
  \<open>see\<close> and \<open>now\<close>.
\<close>

theorem scenario1_transforms:
  "\<exists>v. validate_and_enforce_schema lib scenario1_record idx = Inr (Some v) \<and>
     body_text v = ustr ''Big <b>Win</b>!!! See http://x.co now'' \<and>
     normalize_sentence_boundaries
       (normalize_unicode_and_case (lib_nfkc lib) (lib_lower lib)
         (sanitize_text (lib_charref_sub lib) (body_text v))) = ustr ''big win! see now'' \<and>
     split_ws (ustr ''big win! see now'') = [ustr ''big'', ustr ''win!'', ustr ''see'', ustr ''now''] \<and>
     token_count (add_derived_statistics (v\<lparr>body_text := ustr ''big win! see now''\<rparr>)) = Some 4"
proof -
  have "split_ws (ustr ''big win! see now'') = [ustr ''big'', ustr ''win!'', ustr ''see'', ustr ''now'']"
    by (simp add: string_simps split_simps)
  then show ?thesis
    by (simp add: scenario1_validate scenario1_text scenario1_statistics)
qed

text \<open>
  C7 as stated fails: the batch driver, run on the record of scenario 1 with a
  \<open>min_length\<close> of 0, emits the body text \<open>big win! see now\<close> with a token count of 4,
  not 3.
\<close>

theorem scenario1_token_count_counterexample:
  "process_record scenario_lib False 0 100000 0 scenario1_record = Inr (Some
     \<lparr>article_id = ustr ''article_0000'', title = Some (ustr ''big win!''),
      body_text = ustr ''big win! see now'', source = [], domain = [],
      category = [], pub_datetime = None, url = [], flags = [''very_short''],
      character_count = Some 16, token_count = Some 4, sentence_count = Some 2\<rparr>)"
  using scenario1_process [of 0 100000 scenario_lib False 0]
  by (simp add: fmt_04d_0 ustr_def)

text \<open>
  C8: when the value that the date is read from (the record's \<open>pubDate\<close>, or its
  \<open>pub_date\<close> when that is missing) is the string \<open>2024-05-01T10:00:00Z\<close>, an accepted
  record has \<open>pub_datetime\<close> 1714557600, the Unix time of that instant in UTC: the \<open>Z\<close>
  is replaced by \<open>+00:00\<close> and the text is parsed as ISO 8601.
\<close>

theorem pub_date_iso_utc:
  assumes "validate_and_enforce_schema lib (JDict a) idx = Inr (Some v)"
    and "pub_date_source a = JStr (ustr ''2024-05-01T10:00:00Z'')"
  shows "pub_datetime v = Some 1714557600"
  using validate_pub_date [OF assms(1)] assms(2) parse_iso_utc by simp

theorem pub_date_iso_utc_witness:
  "validate_and_enforce_schema scenario_lib (JDict dated_fields) 0 = Inr (Some
     \<lparr>article_id = ustr ''article_0000'', title = Some (ustr ''Some headline here''),
      body_text = ustr ''Some headline here'', source = [], domain = [],
      category = [], pub_datetime = Some 1714557600, url = [], flags = [], character_count = None,
      token_count = None, sentence_count = None\<rparr>) \<and>
   pub_date_source dated_fields = JStr (ustr ''2024-05-01T10:00:00Z'')"
proof -
  let ?v = "\<lparr>article_id = ustr ''article_0000'', title = Some (ustr ''Some headline here''),
      body_text = ustr ''Some headline here'', source = [], domain = [],
      category = [], pub_datetime = Some 1714557600, url = [], flags = [], character_count = None,
      token_count = None, sentence_count = None\<rparr>"
  have a: "validate_and_enforce_schema scenario_lib (JDict dated_fields) 0 = Inr (Some ?v)"
    using dated_validate [of scenario_lib 0] by (simp add: fmt_04d_0 ustr_def)
  have b: "pub_date_source dated_fields = JStr (ustr ''2024-05-01T10:00:00Z'')"
    by (simp add: dated_fields_def pub_date_source_def py_or_def dict_get_def ustr_def uc_def)
  have "pub_datetime ?v = Some 1714557600"
    using a b by (rule pub_date_iso_utc)
  then show ?thesis using a b by simp
qed

text \<open>
  C9, as the code has it: \<open>normalize_sentence_boundaries\<close> strips a run of marks
  \<open>. , ! ? ; :\<close> at the very start of the text when white space follows it. When the text
  begins with such a run, then white space, then a character that is neither, the output
  begins with that character.
\<close>

theorem leading_marks_before_space_stripped:
  assumes "ps \<noteq> []" and "list_all is_punct ps" and "ws \<noteq> []" and "list_all isspace ws"
    and "\<not> is_punct c" and "\<not> isspace c"
  shows "\<exists>out. normalize_sentence_boundaries (ps @ ws @ c # rest) = c # out"
  using assms by (rule normalize_sentence_boundaries_lead)

theorem leading_marks_before_space_stripped_witness:
  "ustr ''?!'' \<noteq> [] \<and> list_all is_punct (ustr ''?!'') \<and> ustr ''  '' \<noteq> [] \<and>
   list_all isspace (ustr ''  '') \<and> \<not> is_punct (uc CHR ''a'') \<and> \<not> isspace (uc CHR ''a'') \<and>
   normalize_sentence_boundaries (ustr ''?!  abc'') = ustr ''abc''"
proof -
  have h: "ustr ''?!'' \<noteq> []" "list_all is_punct (ustr ''?!'')" "ustr ''  '' \<noteq> []"
    "list_all isspace (ustr ''  '')" "\<not> is_punct (uc CHR ''a'')" "\<not> isspace (uc CHR ''a'')"
    by (simp_all add: string_simps)
  have e: "normalize_sentence_boundaries (ustr ''?!  abc'') = ustr ''abc''"
    by (simp add: string_simps stage_simps Let_def)
  obtain out where "normalize_sentence_boundaries (ustr ''?!'' @ ustr ''  '' @ uc CHR ''a'' # ustr ''bc'')
      = uc CHR ''a'' # out"
    using leading_marks_before_space_stripped [OF h, of "ustr ''bc''"] by blast
  then show ?thesis using h e by simp
qed

text \<open>
  C9 as stated fails: in \<open>.abc\<close> no white space follows the mark, the mark stays, and the
  output \<open>. abc\<close> begins with it.
\<close>

theorem leading_marks_counterexample:
  "normalize_sentence_boundaries (ustr ''.abc'') = ustr ''. abc'' \<and>
   is_punct (hd (normalize_sentence_boundaries (ustr ''.abc'')))"
  by (simp add: string_simps stage_simps Let_def)

text \<open>
  C10: in every article that \<open>process_articles\<close> emits, \<open>character_count\<close> is the length of
  the final body text, that length is at least \<open>min_length\<close>, and the body text is not
  empty (whatever \<open>min_length\<close> is, so in particular when it is 1 or more).
\<close>

theorem emitted_article_counts:
  assumes "process_articles lib raw_articles nf min_length max_length = Inr out"
    and "a \<in> set out"
  shows "character_count a = Some (length (body_text a)) \<and>
    min_length \<le> int (length (body_text a)) \<and> body_text a \<noteq> []"
proof -
  have "\<forall>a\<in>set out. character_count a = Some (length (body_text a)) \<and>
      min_length \<le> int (length (body_text a)) \<and> body_text a \<noteq> []"
    using assms(1) unfolding process_articles_def
    by (rule process_loop_invariant) (simp, rule process_record_survivor)
  then show ?thesis using assms(2) by blast
qed

theorem emitted_article_counts_witness:
  "process_articles scenario_lib [scenario1_record] False 10 100000 = Inr
     [\<lparr>article_id = ustr ''article_0000'', title = Some (ustr ''big win!''),
       body_text = ustr ''big win! see now'', source = [], domain = [],
       category = [], pub_datetime = None, url = [], flags = [''very_short''],
       character_count = Some 16, token_count = Some 4, sentence_count = Some 2\<rparr>] \<and>
   length (ustr ''big win! see now'') = 16"
proof -
  let ?a = "\<lparr>article_id = ustr ''article_0000'', title = Some (ustr ''big win!''),
       body_text = ustr ''big win! see now'', source = [], domain = [],
       category = [], pub_datetime = None, url = [], flags = [''very_short''],
       character_count = Some 16, token_count = Some 4, sentence_count = Some 2\<rparr>"
  have "process_record scenario_lib False 10 100000 0 scenario1_record = Inr (Some ?a)"
    using scenario1_process [of 10 100000 scenario_lib False 0]
    by (simp add: fmt_04d_0 ustr_def)
  then have p: "process_articles scenario_lib [scenario1_record] False 10 100000 = Inr [?a]"
    by (simp add: process_articles_def)
  have "?a \<in> set [?a]" by simp
  with p have "character_count ?a = Some (length (body_text ?a)) \<and>
      10 \<le> int (length (body_text ?a)) \<and> body_text ?a \<noteq> []"
    by (rule emitted_article_counts)
  then show ?thesis using p by simp
qed

end
